theory Spec2Isabelle
  imports Complex_Main "HOL-Library.Multiset"
begin

section \<open>Exceptions\<close>

text \<open>The exceptions that the modelled code can raise.\<close>

datatype error = ZeroDivisionError | ValueError | OverflowError

section \<open>Acoustic link model (models.py)\<close>

text \<open>
  Python floats are modelled as \<^typ>\<open>real\<close>: the arithmetic below is exact, and rounding,
  NaN and infinite values are outside the model. What is inside is the one exception
  that the float arithmetic of this chain can raise: \<open>f**2\<close> on a float raises
  \<open>OverflowError\<close> when the square is too large for a double, that is when it is at
  least \<open>2^1024 - 2^970\<close>, the point from which rounding to nearest leaves the finite
  doubles (a frequency from about 1.34e154 on). Multiplication, division and addition
  of floats do not raise, and the two denominators are at least 1.
\<close>

definition double_overflow :: real where
  "double_overflow = 2 ^ 1024 - 2 ^ 970"

text \<open>The float power \<open>f**2\<close>.\<close>

definition float_square :: "real \<Rightarrow> error + real" where
  "float_square f = (if double_overflow \<le> f\<^sup>2 then Inl OverflowError else Inr (f\<^sup>2))"

text \<open>
  The source writes \<open>f**2\<close> five times in one expression; all five have the same
  outcome, and the first one raises if any does.
\<close>

definition thorp_absorption_coefficient :: "real \<Rightarrow> error + real" where
  "thorp_absorption_coefficient frequency_khz =
     (let f = frequency_khz
      in case float_square f of
           Inl e \<Rightarrow> Inl e
         | Inr f2 \<Rightarrow>
             Inr ((0.11 * f2) / (1 + f2) + (44 * f2) / (4100 + f2) + 0.000275 * f2 + 0.003))"

text \<open>
  \<open>numpy.log10\<close> does not raise; the bisection calls it on distances in [1, 10000] only.
\<close>

definition path_loss_acoustic :: "real \<Rightarrow> real \<Rightarrow> error + real" where
  "path_loss_acoustic distance_m frequency_khz =
     (let distance_km = distance_m / 1000;
          spreading_loss = 20 * log 10 distance_m
      in case thorp_absorption_coefficient frequency_khz of
           Inl e \<Rightarrow> Inl e
         | Inr alpha \<Rightarrow>
             (let absorption_loss = alpha * distance_km
              in Inr (spreading_loss + absorption_loss)))"

definition calculate_snr :: "real \<Rightarrow> real \<Rightarrow> real \<Rightarrow> real \<Rightarrow> error + real" where
  "calculate_snr distance_m source_level_db noise_level_db frequency_khz =
     (case path_loss_acoustic distance_m frequency_khz of
        Inl e \<Rightarrow> Inl e
      | Inr loss \<Rightarrow>
          (let received_level = source_level_db - loss
           in Inr (received_level - noise_level_db)))"

definition tolerance :: real where
  "tolerance = 0.1"

text \<open>
  Each round of the bisection halves the interval, so the number of tolerance-sized
  cells that cover it goes down. This is the measure of the \<open>while\<close> loop of
  \<open>max_communication_range\<close>.
\<close>

lemma bisect_measure_decreases:
  fixes low high :: real
  assumes w: "tolerance < high - low"
  shows "nat \<lceil>(high - (low + high) / 2) * 10\<rceil> < nat \<lceil>(high - low) * 10\<rceil>"
    and "nat \<lceil>((low + high) / 2 - low) * 10\<rceil> < nat \<lceil>(high - low) * 10\<rceil>"
proof -
  have shrink: "nat \<lceil>x / 2\<rceil> < nat \<lceil>x\<rceil>" if "1 < x" for x :: real
  proof -
    have pos: "1 < \<lceil>x\<rceil>" using that by (simp add: less_ceiling_iff)
    have "\<lceil>x / 2\<rceil> < \<lceil>x\<rceil>"
    proof (cases "x \<le> 2")
      case True
      then have "\<lceil>x / 2\<rceil> \<le> 1" by (simp add: ceiling_le_iff)
      from le_less_trans[OF this pos] show ?thesis .
    next
      case False
      have "real_of_int \<lceil>x / 2\<rceil> < x / 2 + 1" by linarith
      also have "\<dots> < x" using False by simp
      also have "\<dots> \<le> real_of_int \<lceil>x\<rceil>" by simp
      finally show ?thesis by simp
    qed
    then show ?thesis using pos by simp
  qed
  have "1 < (high - low) * 10" using w by (simp add: tolerance_def)
  from shrink[OF this]
  have s: "nat \<lceil>(high - low) * 10 / 2\<rceil> < nat \<lceil>(high - low) * 10\<rceil>" .
  have e1: "(high - (low + high) / 2) * 10 = (high - low) * 10 / 2" by (simp add: field_simps)
  have e2: "((low + high) / 2 - low) * 10 = (high - low) * 10 / 2" by (simp add: field_simps)
  show "nat \<lceil>(high - (low + high) / 2) * 10\<rceil> < nat \<lceil>(high - low) * 10\<rceil>"
    by (simp only: e1 s)
  show "nat \<lceil>((low + high) / 2 - low) * 10\<rceil> < nat \<lceil>(high - low) * 10\<rceil>"
    by (simp only: e2 s)
qed

text \<open>
  The \<open>while high - low > tolerance\<close> loop of \<open>max_communication_range\<close>. The SNR curve
  is an argument (\<open>snr_at mid\<close> stands for the call of \<open>calculate_snr\<close> at \<open>mid\<close>), so
  that what is proved about the loop holds for every curve, monotone or not. An
  exception raised by that call leaves the loop.
\<close>

function range_search :: "(real \<Rightarrow> error + real) \<Rightarrow> real \<Rightarrow> real \<Rightarrow> real \<Rightarrow> error + real" where
  "range_search snr_at min_snr_db low high =
     (if high - low > tolerance
      then (let mid = (low + high) / 2
            in case snr_at mid of
                 Inl e \<Rightarrow> Inl e
               | Inr snr \<Rightarrow>
                   if snr \<ge> min_snr_db
                   then range_search snr_at min_snr_db mid high
                   else range_search snr_at min_snr_db low mid)
      else Inr low)"
  by pat_completeness auto
termination
proof (relation "measure (\<lambda>(snr_at, min_snr_db, low, high). nat \<lceil>(high - low) * 10\<rceil>)")
  show "wf (measure (\<lambda>(snr_at, min_snr_db, low, high). nat \<lceil>(high - low) * 10\<rceil>))"
    by simp
next
  fix snr_at :: "real \<Rightarrow> error + real" and min_snr_db low high mid :: real
  assume w: "tolerance < high - low" and m: "mid = (low + high) / 2"
  show "((snr_at, min_snr_db, mid, high), (snr_at, min_snr_db, low, high))
        \<in> measure (\<lambda>(snr_at, min_snr_db, low, high). nat \<lceil>(high - low) * 10\<rceil>)"
    unfolding m using bisect_measure_decreases(1)[OF w] by (simp only: in_measure prod.case)
next
  fix snr_at :: "real \<Rightarrow> error + real" and min_snr_db low high mid :: real
  assume w: "tolerance < high - low" and m: "mid = (low + high) / 2"
  show "((snr_at, min_snr_db, low, mid), (snr_at, min_snr_db, low, high))
        \<in> measure (\<lambda>(snr_at, min_snr_db, low, high). nat \<lceil>(high - low) * 10\<rceil>)"
    unfolding m using bisect_measure_decreases(2)[OF w] by (simp only: in_measure prod.case)
qed

declare range_search.simps [simp del]

text \<open>
  The number of times the body of that loop is entered: the same recursion, counting.
\<close>

function range_search_iterations :: "(real \<Rightarrow> error + real) \<Rightarrow> real \<Rightarrow> real \<Rightarrow> real \<Rightarrow> nat" where
  "range_search_iterations snr_at min_snr_db low high =
     (if high - low > tolerance
      then (let mid = (low + high) / 2
            in case snr_at mid of
                 Inl e \<Rightarrow> Suc 0
               | Inr snr \<Rightarrow>
                   if snr \<ge> min_snr_db
                   then Suc (range_search_iterations snr_at min_snr_db mid high)
                   else Suc (range_search_iterations snr_at min_snr_db low mid))
      else 0)"
  by pat_completeness auto
termination
proof (relation "measure (\<lambda>(snr_at, min_snr_db, low, high). nat \<lceil>(high - low) * 10\<rceil>)")
  show "wf (measure (\<lambda>(snr_at, min_snr_db, low, high). nat \<lceil>(high - low) * 10\<rceil>))"
    by simp
next
  fix snr_at :: "real \<Rightarrow> error + real" and min_snr_db low high mid :: real
  assume w: "tolerance < high - low" and m: "mid = (low + high) / 2"
  show "((snr_at, min_snr_db, mid, high), (snr_at, min_snr_db, low, high))
        \<in> measure (\<lambda>(snr_at, min_snr_db, low, high). nat \<lceil>(high - low) * 10\<rceil>)"
    unfolding m using bisect_measure_decreases(1)[OF w] by (simp only: in_measure prod.case)
next
  fix snr_at :: "real \<Rightarrow> error + real" and min_snr_db low high mid :: real
  assume w: "tolerance < high - low" and m: "mid = (low + high) / 2"
  show "((snr_at, min_snr_db, low, mid), (snr_at, min_snr_db, low, high))
        \<in> measure (\<lambda>(snr_at, min_snr_db, low, high). nat \<lceil>(high - low) * 10\<rceil>)"
    unfolding m using bisect_measure_decreases(2)[OF w] by (simp only: in_measure prod.case)
qed

declare range_search_iterations.simps [simp del]

definition max_communication_range :: "real \<Rightarrow> real \<Rightarrow> real \<Rightarrow> real \<Rightarrow> error + real" where
  "max_communication_range min_snr_db source_level_db noise_level_db frequency_khz =
     range_search (\<lambda>mid. calculate_snr mid source_level_db noise_level_db frequency_khz)
       min_snr_db 1 10000"

section \<open>Geospatial distance (models.py)\<close>

definition radians :: "real \<Rightarrow> real" where
  "radians x = x * pi / 180"

text \<open>\<open>numpy.arctan2 y x\<close>: the angle of the point \<open>(x, y)\<close>, in \<open>(-pi, pi]\<close>.\<close>

definition arctan2 :: "real \<Rightarrow> real \<Rightarrow> real" where
  "arctan2 y x =
     (if 0 < x then arctan (y / x)
      else if x < 0 then (if 0 \<le> y then arctan (y / x) + pi else arctan (y / x) - pi)
      else if 0 < y then pi / 2
      else if y < 0 then - pi / 2
      else 0)"

definition haversine_distance :: "real \<Rightarrow> real \<Rightarrow> real \<Rightarrow> real \<Rightarrow> real" where
  "haversine_distance lat1 lon1 lat2 lon2 =
     (let R = 6371000;
          lat1_rad = radians lat1;
          lat2_rad = radians lat2;
          dlat = radians (lat2 - lat1);
          dlon = radians (lon2 - lon1);
          a = (sin (dlat / 2))\<^sup>2 + cos lat1_rad * cos lat2_rad * (sin (dlon / 2))\<^sup>2;
          c = 2 * arctan2 (sqrt a) (sqrt (1 - a));
          distance = R * c
      in distance)"

section \<open>Data model (optimizer.py, config.py)\<close>

text \<open>
  A node is the five-element list \<open>[lat, lon, depth, active, type]\<close> of the source; the
  activation bit and the type tag (0 = sensor node, 1 = gateway buoy) are integers there,
  and stay integers here.
\<close>

record node =
  lat :: real
  lon :: real
  depth :: real
  active :: int
  node_type :: int

type_synonym individual = "node list"

text \<open>A point of interest: the dictionary built by \<open>generate_pois\<close>.\<close>

record poi =
  poi_id :: int
  poi_type :: string
  poi_lat :: real
  poi_lon :: real
  priority :: string
  coverage_radius_m :: real
  name :: string

text \<open>The constants of \<open>config.py\<close> that the optimizer reads.\<close>

record config =
  nsga2_population_size :: int
  nsga2_generations :: int
  nsga2_mutation_rate :: real
  nsga2_crossover_rate :: real
  nsga2_max_sensor_nodes :: int
  nsga2_max_gateway_buoys :: int
  nsga2_tournament_size :: int
  acoustic_frequency_khz :: real
  acoustic_source_level_db :: real
  acoustic_noise_level_db :: real
  acoustic_min_snr_db :: real
  bathymetry_depth_min :: real
  bathymetry_depth_max :: real
  relative_cost_sensor_node :: real
  relative_cost_gateway_buoy :: real
  lat_km_per_degree :: real

definition repo_config :: config where
  "repo_config =
     \<lparr>nsga2_population_size = 160, nsga2_generations = 320, nsga2_mutation_rate = 0.22,
      nsga2_crossover_rate = 0.88, nsga2_max_sensor_nodes = 25, nsga2_max_gateway_buoys = 6,
      nsga2_tournament_size = 3,
      acoustic_frequency_khz = 20.0, acoustic_source_level_db = 170,
      acoustic_noise_level_db = 60, acoustic_min_snr_db = 10,
      bathymetry_depth_min = 8.0, bathymetry_depth_max = 25.0,
      relative_cost_sensor_node = 1, relative_cost_gateway_buoy = 5,
      lat_km_per_degree = 111.0\<rparr>"

text \<open>The attributes of a \<open>NetworkOptimizer\<close> instance.\<close>

record optimizer =
  pois :: "poi list"
  bathymetry :: "real list list"
  center_lat :: real
  center_lon :: real
  area_radius_km :: real
  pop_size :: int
  n_gen :: int
  mut_rate :: real
  cx_rate :: real
  max_sns :: int
  max_bgs :: int
  max_range_m :: real

section \<open>Construction (NetworkOptimizer.__init__)\<close>

text \<open>
  The constructor stores its arguments and the NSGA-II parameters and computes the
  maximum communication range. It has no \<open>raise\<close> and no check of its arguments; an
  exception of the range computation leaves it.
\<close>

definition init ::
  "config \<Rightarrow> poi list \<Rightarrow> real list list \<Rightarrow> real \<Rightarrow> real \<Rightarrow> real \<Rightarrow> error + optimizer" where
  "init cfg pois_arg bathymetry_arg center_lat_arg center_lon_arg area_radius_km_arg =
     (case max_communication_range
             (acoustic_min_snr_db cfg) (acoustic_source_level_db cfg)
             (acoustic_noise_level_db cfg) (acoustic_frequency_khz cfg) of
        Inl e \<Rightarrow> Inl e
      | Inr max_range \<Rightarrow>
          Inr \<lparr>pois = pois_arg,
               bathymetry = bathymetry_arg,
               center_lat = center_lat_arg,
               center_lon = center_lon_arg,
               area_radius_km = area_radius_km_arg,
               pop_size = nsga2_population_size cfg,
               n_gen = nsga2_generations cfg,
               mut_rate = nsga2_mutation_rate cfg,
               cx_rate = nsga2_crossover_rate cfg,
               max_sns = nsga2_max_sensor_nodes cfg,
               max_bgs = nsga2_max_gateway_buoys cfg,
               max_range_m = max_range\<rparr>)"

section \<open>Connectivity checker (NetworkOptimizer._check_connectivity)\<close>

subsection \<open>The part of networkx that the checker calls\<close>

text \<open>
  An undirected graph on integer vertices: the vertices in insertion order and the edges
  as they were added. Node and edge attributes (\<open>pos\<close>, \<open>type\<close>, \<open>weight\<close>) are written
  by the checker and never read, so they are left out.
\<close>

datatype graph = Graph (vertices: "nat list") (edges: "(nat \<times> nat) list")

definition empty_graph :: graph where
  "empty_graph = Graph [] []"

definition add_node :: "graph \<Rightarrow> nat \<Rightarrow> graph" where
  "add_node G v = (if v \<in> set (vertices G) then G else Graph (vertices G @ [v]) (edges G))"

definition add_edge :: "graph \<Rightarrow> nat \<Rightarrow> nat \<Rightarrow> graph" where
  "add_edge G u v =
     (let G' = add_node (add_node G u) v in Graph (vertices G') (edges G' @ [(u, v)]))"

definition neighbors :: "graph \<Rightarrow> nat \<Rightarrow> nat list" where
  "neighbors G v = [b. (a, b) \<leftarrow> edges G, a = v] @ [a. (a, b) \<leftarrow> edges G, b = v]"

definition endpoints :: "graph \<Rightarrow> nat set" where
  "endpoints G = fst ` set (edges G) \<union> snd ` set (edges G)"

lemma neighbors_endpoints: "w \<in> set (neighbors G v) \<Longrightarrow> w \<in> endpoints G"
  by (force simp: neighbors_def endpoints_def)

text \<open>
  Breadth-first search: the vertices seen so far grow by their unseen neighbours until a
  round finds none. Every new vertex is an endpoint of an edge, and there are finitely
  many of those, which is why the search stops.
\<close>

function bfs_reach :: "graph \<Rightarrow> nat list \<Rightarrow> nat list" where
  "bfs_reach G seen =
     (let frontier = filter (\<lambda>w. w \<notin> set seen) (remdups (concat (map (neighbors G) seen)))
      in if frontier = [] then seen else bfs_reach G (seen @ frontier))"
  by pat_completeness auto
termination
proof (relation "measure (\<lambda>(G, seen). card (endpoints G - set seen))")
  show "wf (measure (\<lambda>(G, seen). card (endpoints G - set seen)))" by simp
  fix G :: graph and seen frontier :: "nat list"
  assume f: "frontier = filter (\<lambda>w. w \<notin> set seen) (remdups (concat (map (neighbors G) seen)))"
    and ne: "frontier \<noteq> []"
  from ne obtain w where w: "w \<in> set frontier" by (cases frontier) auto
  then have "w \<notin> set seen" and "w \<in> endpoints G"
    using f by (auto dest: neighbors_endpoints)
  then have "endpoints G - set (seen @ frontier) \<subset> endpoints G - set seen"
    using w by auto
  moreover have "finite (endpoints G - set seen)" by (simp add: endpoints_def)
  ultimately have "card (endpoints G - set (seen @ frontier)) < card (endpoints G - set seen)"
    by (rule psubset_card_mono[rotated])
  then show "((G, seen @ frontier), (G, seen)) \<in> measure (\<lambda>(G, seen). card (endpoints G - set seen))"
    by simp
qed

declare bfs_reach.simps [simp del]

text \<open>
  \<open>networkx.has_path G source target\<close>. The checker calls it on vertices of \<open>G\<close> only, so
  the library's error for an unknown vertex cannot occur.
\<close>

definition has_path :: "graph \<Rightarrow> nat \<Rightarrow> nat \<Rightarrow> bool" where
  "has_path G source target = (target \<in> set (bfs_reach G [source]))"

subsection \<open>The checker\<close>

definition check_connectivity :: "optimizer \<Rightarrow> node list \<Rightarrow> node list \<Rightarrow> bool" where
  "check_connectivity self active_sns active_bgs =
     (if active_bgs = [] then False
      else
        let all_nodes = active_sns @ active_bgs;
            G0 = fold (\<lambda>i G. add_node G i) [0..<length all_nodes] empty_graph;
            G = fold (\<lambda>i G.
                  fold (\<lambda>j G.
                    let distance = haversine_distance
                          (lat (all_nodes ! i)) (lon (all_nodes ! i))
                          (lat (all_nodes ! j)) (lon (all_nodes ! j))
                    in if distance \<le> max_range_m self then add_edge G i j else G)
                  [i + 1..<length all_nodes] G)
                [0..<length all_nodes] G0;
            bg_indices = [i \<leftarrow> [0..<length all_nodes]. node_type (all_nodes ! i) = 1]
        in if bg_indices = [] then False
           else list_all (\<lambda>sn_idx. list_ex (\<lambda>bg_idx. has_path G sn_idx bg_idx) bg_indices)
                  [0..<length active_sns])"

section \<open>Fitness evaluator (NetworkOptimizer._evaluate)\<close>

text \<open>
  The coverage objective: the identifiers of the points of interest that have an active
  sensor within their radius are collected in a set, and its size is divided by the
  number of points of interest. Python raises \<open>ZeroDivisionError\<close> when that number is 0.
\<close>

definition coverage_pct :: "optimizer \<Rightarrow> node list \<Rightarrow> error + real" where
  "coverage_pct self active_sns =
     (let covered_pois =
            fold (\<lambda>poi covered.
                    if list_ex (\<lambda>node.
                         haversine_distance (poi_lat poi) (poi_lon poi) (lat node) (lon node)
                           \<le> coverage_radius_m poi) active_sns
                    then insert (poi_id poi) covered
                    else covered)
                 (pois self) {}
      in if length (pois self) = 0 then Inl ZeroDivisionError
         else Inr ((real (card covered_pois) / real (length (pois self))) * 100))"

definition evaluate :: "config \<Rightarrow> optimizer \<Rightarrow> individual \<Rightarrow> error + (real \<times> real)" where
  "evaluate cfg self individual =
     (let active_sns = [node \<leftarrow> individual. node_type node = 0 \<and> active node = 1];
          active_bgs = [node \<leftarrow> individual. node_type node = 1 \<and> active node = 1];
          num_sns = length active_sns;
          num_bgs = length active_bgs
      in if num_sns = 0 \<or> num_bgs = 0 then Inr (1000000, 0.0)
         else
           let cost = real num_sns * relative_cost_sensor_node cfg
                      + real num_bgs * relative_cost_gateway_buoy cfg
           in case coverage_pct self active_sns of
                Inl e \<Rightarrow> Inl e
              | Inr pct \<Rightarrow>
                  if \<not> check_connectivity self active_sns active_bgs
                  then Inr (cost * 10, pct * 0.1)
                  else Inr (cost, pct))"

section \<open>Genetic operators (NetworkOptimizer._crossover, NetworkOptimizer._mutate)\<close>

text \<open>
  The outcomes of the calls of the random module are arguments of the operators, so that
  a statement about an operator is a statement about every outcome of its draws.
\<close>

text \<open>\<open>random.randint a b\<close> with its outcome: an empty range raises \<open>ValueError\<close>.\<close>

definition randint :: "int \<Rightarrow> int \<Rightarrow> int \<Rightarrow> error + int" where
  "randint a b outcome = (if b < a then Inl ValueError else Inr outcome)"

text \<open>
  Python list slices \<open>xs[i:j]\<close>, read and assigned: a negative index counts from the end,
  and both ends are clamped to the list.
\<close>

definition slice_index :: "nat \<Rightarrow> int \<Rightarrow> nat" where
  "slice_index len i = (if i < 0 then nat (max 0 (int len + i)) else min (nat i) len)"

definition get_slice :: "'a list \<Rightarrow> int \<Rightarrow> int \<Rightarrow> 'a list" where
  "get_slice xs i j =
     (let start = slice_index (length xs) i; stop = slice_index (length xs) j
      in take (stop - start) (drop start xs))"

definition set_slice :: "'a list \<Rightarrow> int \<Rightarrow> int \<Rightarrow> 'a list \<Rightarrow> 'a list" where
  "set_slice xs i j ys =
     (let start = slice_index (length xs) i; stop = slice_index (length xs) j
      in take start xs @ ys @ drop (max start stop) xs)"

text \<open>
  Two-point crossover. Both slices of the right-hand side are read before either
  assignment, as in the Python tuple assignment. The two individuals are distinct
  lists (the caller clones them).
\<close>

definition crossover ::
  "individual \<Rightarrow> individual \<Rightarrow> int \<Rightarrow> int \<Rightarrow> error + (individual \<times> individual)" where
  "crossover ind1 ind2 outcome1 outcome2 =
     (let size = int (length ind1)
      in case randint 1 (size - 1) outcome1 of
           Inl e \<Rightarrow> Inl e
         | Inr cx_point1 \<Rightarrow>
             (case randint 1 (size - 1) outcome2 of
                Inl e \<Rightarrow> Inl e
              | Inr cx_point2 \<Rightarrow>
                  let (cx_point1, cx_point2) =
                        (if cx_point1 > cx_point2 then (cx_point2, cx_point1)
                         else (cx_point1, cx_point2));
                      from_ind2 = get_slice ind2 cx_point1 cx_point2;
                      from_ind1 = get_slice ind1 cx_point1 cx_point2
                  in Inr (set_slice ind1 cx_point1 cx_point2 from_ind2,
                          set_slice ind2 cx_point1 cx_point2 from_ind1)))"

text \<open>
  Mutation. For the node at one index the source draws \<open>random.random()\<close>, then, if the
  node mutates, \<open>random.choice(['position', 'activation'])\<close>, then for a position
  mutation two \<open>random.gauss\<close> values.
\<close>

datatype mutation_type = Position | Activation

record mutation_draws =
  random_value :: real
  choice :: mutation_type
  gauss_lat :: real
  gauss_lon :: real

text \<open>\<open>numpy.clip x a_min a_max\<close>.\<close>

definition clip :: "real \<Rightarrow> real \<Rightarrow> real \<Rightarrow> real" where
  "clip x a_min a_max = min (max x a_min) a_max"

text \<open>The body of the loop of \<open>_mutate\<close>, for one node and the draws made at its index.\<close>

definition mutate_node :: "config \<Rightarrow> optimizer \<Rightarrow> mutation_draws \<Rightarrow> node \<Rightarrow> node" where
  "mutate_node cfg self d node =
     (if random_value d < mut_rate self
      then (case choice d of
              Position \<Rightarrow>
                let lat_range = area_radius_km self / lat_km_per_degree cfg;
                    lon_range = area_radius_km self /
                      (lat_km_per_degree cfg * cos (radians \<bar>center_lat self\<bar>));
                    lat' = lat node + gauss_lat d;
                    lon' = lon node + gauss_lon d
                in node\<lparr>lat := clip lat' (center_lat self - lat_range)
                                       (center_lat self + lat_range),
                        lon := clip lon' (center_lon self - lon_range)
                                       (center_lon self + lon_range)\<rparr>
            | Activation \<Rightarrow> node\<lparr>active := 1 - active node\<rparr>)
      else node)"

definition mutate ::
  "config \<Rightarrow> optimizer \<Rightarrow> (nat \<Rightarrow> mutation_draws) \<Rightarrow> individual \<Rightarrow> individual" where
  "mutate cfg self draws individual =
     map (\<lambda>i. mutate_node cfg self (draws i) (individual ! i)) [0..<length individual]"

section \<open>The notions of the specification\<close>

text \<open>
  These definitions follow the words of the specification, not the code; the theorems
  below compare the code with them.
\<close>

definition active_sensors :: "individual \<Rightarrow> node list" where
  "active_sensors individual = [node \<leftarrow> individual. node_type node = 0 \<and> active node = 1]"

definition active_gateways :: "individual \<Rightarrow> node list" where
  "active_gateways individual = [node \<leftarrow> individual. node_type node = 1 \<and> active node = 1]"

text \<open>Two nodes can talk: their great-circle distance is at most the maximum range.\<close>

definition within_range :: "optimizer \<Rightarrow> node \<Rightarrow> node \<Rightarrow> bool" where
  "within_range self a b =
     (haversine_distance (lat a) (lon a) (lat b) (lon b) \<le> max_range_m self)"

text \<open>
  The undirected graph on the active nodes (by position in the list) whose edges join
  the pairs of distinct nodes within range of each other.
\<close>

definition proximity_graph :: "optimizer \<Rightarrow> node list \<Rightarrow> (nat \<times> nat) set" where
  "proximity_graph self ns =
     {(i, j). i < length ns \<and> j < length ns \<and> i \<noteq> j \<and> within_range self (ns ! i) (ns ! j)}"

text \<open>
  Feasibility: at least one gateway is active, and every active sensor has a path in
  that graph to some active gateway. The gateways follow the sensors in the list.
\<close>

definition feasible :: "optimizer \<Rightarrow> node list \<Rightarrow> node list \<Rightarrow> bool" where
  "feasible self active_sns active_bgs =
     (active_bgs \<noteq> [] \<and>
      (\<forall>s < length active_sns. \<exists>g < length active_bgs.
         (s, length active_sns + g) \<in> (proximity_graph self (active_sns @ active_bgs))\<^sup>*))"

text \<open>A point of interest is covered when some active sensor lies within its radius.\<close>

definition covers :: "node list \<Rightarrow> poi \<Rightarrow> bool" where
  "covers sensors p =
     (\<exists>s \<in> set sensors.
        haversine_distance (poi_lat p) (poi_lon p) (lat s) (lon s) \<le> coverage_radius_m p)"

definition covered_ids :: "optimizer \<Rightarrow> node list \<Rightarrow> int set" where
  "covered_ids self sensors = poi_id ` {p \<in> set (pois self). covers sensors p}"

section \<open>Concrete inputs\<close>

text \<open>
  One point of interest with radius 200 m, a sensor and a gateway at its position, and a
  gateway on the other side of the globe; the maximum range is set to 100 m.
\<close>

definition example_poi :: poi where
  "example_poi =
     \<lparr>poi_id = 1, poi_type = ''critical_monitoring'', poi_lat = 0, poi_lon = 0,
      priority = ''very_high'', coverage_radius_m = 200, name = ''critical_monitoring_1''\<rparr>"

definition example_optimizer :: optimizer where
  "example_optimizer =
     \<lparr>pois = [example_poi], bathymetry = [], center_lat = 0, center_lon = 0,
      area_radius_km = 1, pop_size = 160, n_gen = 320, mut_rate = 0.22, cx_rate = 0.88,
      max_sns = 1, max_bgs = 1, max_range_m = 100\<rparr>"

definition example_sensor :: node where
  "example_sensor = \<lparr>lat = 0, lon = 0, depth = 10, active = 1, node_type = 0\<rparr>"

definition example_gateway :: node where
  "example_gateway = \<lparr>lat = 0, lon = 0, depth = 0, active = 1, node_type = 1\<rparr>"

definition far_gateway :: node where
  "far_gateway = \<lparr>lat = 0, lon = 180, depth = 0, active = 1, node_type = 1\<rparr>"

text \<open>
  The repository's configuration with a population size of 0, no sensor nodes, a
  negative number of gateways and inverted depth bounds.
\<close>

definition invalid_config :: config where
  "invalid_config =
     \<lparr>nsga2_population_size = 0, nsga2_generations = 320, nsga2_mutation_rate = 0.22,
      nsga2_crossover_rate = 0.88, nsga2_max_sensor_nodes = 0, nsga2_max_gateway_buoys = - 1,
      nsga2_tournament_size = 3,
      acoustic_frequency_khz = 20.0, acoustic_source_level_db = 170,
      acoustic_noise_level_db = 60, acoustic_min_snr_db = 10,
      bathymetry_depth_min = 25.0, bathymetry_depth_max = 8.0,
      relative_cost_sensor_node = 1, relative_cost_gateway_buoy = 5,
      lat_km_per_degree = 111.0\<rparr>"

section \<open>Properties of the acoustic link model\<close>

subsection \<open>When the SNR computation raises\<close>

lemma calculate_snr_returns:
  assumes "frequency_khz\<^sup>2 < double_overflow"
  shows "\<exists>snr. calculate_snr distance_m source_level_db noise_level_db frequency_khz = Inr snr"
  using assms
  by (simp add: calculate_snr_def path_loss_acoustic_def thorp_absorption_coefficient_def
      float_square_def Let_def)

lemma calculate_snr_overflows:
  assumes "double_overflow \<le> frequency_khz\<^sup>2"
  shows "calculate_snr distance_m source_level_db noise_level_db frequency_khz = Inl OverflowError"
  using assms
  by (simp add: calculate_snr_def path_loss_acoustic_def thorp_absorption_coefficient_def
      float_square_def Let_def)

subsection \<open>The bisection stays inside its interval and runs 17 rounds\<close>

lemma range_search_between:
  "(\<forall>d. \<exists>snr. snr_at d = Inr snr) \<Longrightarrow> low \<le> high \<Longrightarrow>
   \<exists>r. range_search snr_at min_snr_db low high = Inr r \<and> low \<le> r \<and> r \<le> high"
proof (induction snr_at min_snr_db low high rule: range_search.induct)
  case (1 snr_at min_snr_db low high)
  note ok = "1.prems"(1) and le = "1.prems"(2)
  show ?case
  proof (cases "high - low > tolerance")
    case False
    then show ?thesis using le by (simp add: range_search.simps)
  next
    case True
    define mid where "mid = (low + high) / 2"
    have lm: "low \<le> mid" and mh: "mid \<le> high" using le by (simp_all add: mid_def)
    from ok obtain snr where snr: "snr_at mid = Inr snr" by blast
    show ?thesis
    proof (cases "snr \<ge> min_snr_db")
      case up: True
      have "\<exists>r. range_search snr_at min_snr_db mid high = Inr r \<and> mid \<le> r \<and> r \<le> high"
        using "1.IH"(1)[OF True mid_def snr up ok mh] .
      moreover have "range_search snr_at min_snr_db low high = range_search snr_at min_snr_db mid high"
        using True up snr by (subst range_search.simps) (simp add: mid_def[symmetric] Let_def)
      ultimately show ?thesis using lm by auto
    next
      case down: False
      have "\<exists>r. range_search snr_at min_snr_db low mid = Inr r \<and> low \<le> r \<and> r \<le> mid"
        using "1.IH"(2)[OF True mid_def snr down ok lm] .
      moreover have "range_search snr_at min_snr_db low high = range_search snr_at min_snr_db low mid"
        using True down snr by (subst range_search.simps) (simp add: mid_def[symmetric] Let_def)
      ultimately show ?thesis using mh by auto
    qed
  qed
qed

lemma range_search_iterations_halving:
  "(\<forall>d. \<exists>snr. snr_at d = Inr snr) \<Longrightarrow> k \<le> 17 \<Longrightarrow> high - low = 9999 / 2 ^ k \<Longrightarrow>
   range_search_iterations snr_at min_snr_db low high = 17 - k"
proof (induction "17 - k" arbitrary: k low high)
  case 0
  then have k: "k = 17" by simp
  have "\<not> high - low > tolerance" using "0.prems"(3) by (simp add: k tolerance_def)
  then show ?case by (subst range_search_iterations.simps) (simp add: k)
next
  case (Suc n)
  note ok = Suc.prems(1)
  from Suc have k: "k \<le> 16" by simp
  have "(2::real) ^ k \<le> 2 ^ 16" using k by (intro power_increasing) simp_all
  then have "(9999::real) / 2 ^ 16 \<le> 9999 / 2 ^ k" by (intro divide_left_mono) simp_all
  moreover have "tolerance < 9999 / 2 ^ 16" by (simp add: tolerance_def)
  ultimately have "tolerance < 9999 / 2 ^ k" by (rule less_le_trans[rotated])
  then have w: "high - low > tolerance"
    by (simp only: Suc.prems(3))
  define mid where "mid = (low + high) / 2"
  from ok obtain snr where snr: "snr_at mid = Inr snr" by blast
  have h1: "high - mid = 9999 / 2 ^ Suc k" using Suc.prems(3) by (simp add: mid_def field_simps)
  have h2: "mid - low = 9999 / 2 ^ Suc k" using Suc.prems(3) by (simp add: mid_def field_simps)
  have n: "n = 17 - Suc k" "Suc k \<le> 17" using Suc.hyps(2) k by simp_all
  have r1: "range_search_iterations snr_at min_snr_db mid high = 17 - Suc k"
    using Suc.hyps(1)[OF n(1) ok n(2) h1] .
  have r2: "range_search_iterations snr_at min_snr_db low mid = 17 - Suc k"
    using Suc.hyps(1)[OF n(1) ok n(2) h2] .
  show ?case
    using w r1 r2 k snr
    by (subst range_search_iterations.simps) (simp add: mid_def[symmetric] Let_def)
qed

lemma range_search_raises_at_once:
  assumes "\<forall>d. snr_at d = Inl e" "tolerance < high - low"
  shows "range_search snr_at min_snr_db low high = Inl e"
    and "range_search_iterations snr_at min_snr_db low high = 1"
proof -
  show "range_search snr_at min_snr_db low high = Inl e"
    using assms by (subst range_search.simps) (simp add: Let_def)
  show "range_search_iterations snr_at min_snr_db low high = 1"
    using assms by (subst range_search_iterations.simps) (simp add: Let_def)
qed

lemma max_communication_range_returns:
  assumes "frequency_khz\<^sup>2 < double_overflow"
  shows "\<exists>r. max_communication_range min_snr_db source_level_db noise_level_db frequency_khz = Inr r
             \<and> 1 \<le> r \<and> r \<le> 10000"
proof -
  have ok: "\<forall>d. \<exists>snr. calculate_snr d source_level_db noise_level_db frequency_khz = Inr snr"
    using calculate_snr_returns[OF assms] by blast
  have "(1::real) \<le> 10000" by simp
  from range_search_between[OF ok this] show ?thesis
    by (simp only: max_communication_range_def)
qed

lemma repo_frequency_in_range: "(20::real)\<^sup>2 < double_overflow"
  by (simp add: double_overflow_def)

lemma huge_frequency_overflows: "double_overflow \<le> ((10::real) ^ 200)\<^sup>2"
  by (simp add: double_overflow_def)

text \<open>
  C9. For every minimum SNR, source level and noise level and every frequency whose
  square does not overflow a double, and for every SNR curve handed to the loop that
  raises nothing (also one that is not monotone in the distance), the bisection of
  \<open>max_communication_range\<close> over [1, 10000] stops after 17 rounds, when the halved
  interval is no wider than the 0.1 m tolerance, and what it returns lies in [1, 10000].
\<close>

theorem max_communication_range_terminates_in_bounds:
  "((\<forall>d. \<exists>snr. snr_at d = Inr snr) \<longrightarrow>
      range_search_iterations snr_at min_snr_db 1 10000 = 17
      \<and> (\<exists>r. range_search snr_at min_snr_db 1 10000 = Inr r \<and> 1 \<le> r \<and> r \<le> 10000))
   \<and> (frequency_khz\<^sup>2 < double_overflow \<longrightarrow>
      range_search_iterations
        (\<lambda>mid. calculate_snr mid source_level_db noise_level_db frequency_khz) min_snr_db 1 10000 = 17
      \<and> (\<exists>r. max_communication_range min_snr_db source_level_db noise_level_db frequency_khz = Inr r
             \<and> 1 \<le> r \<and> r \<le> 10000))"
proof -
  have it: "range_search_iterations c m 1 10000 = 17" if "\<forall>d. \<exists>snr. c d = Inr snr"
    for c :: "real \<Rightarrow> error + real" and m
  proof -
    have "range_search_iterations c m 1 10000 = 17 - 0"
      by (rule range_search_iterations_halving[OF that]) simp_all
    then show ?thesis by simp
  qed
  have b: "\<exists>r. range_search c m 1 10000 = Inr r \<and> 1 \<le> r \<and> r \<le> 10000"
    if "\<forall>d. \<exists>snr. c d = Inr snr" for c :: "real \<Rightarrow> error + real" and m
    by (rule range_search_between[OF that]) simp
  have ok: "\<forall>d. \<exists>snr. calculate_snr d source_level_db noise_level_db frequency_khz = Inr snr"
    if "frequency_khz\<^sup>2 < double_overflow"
    using calculate_snr_returns[OF that] by blast
  have first: "(\<forall>d. \<exists>snr. snr_at d = Inr snr) \<longrightarrow>
      range_search_iterations snr_at min_snr_db 1 10000 = 17
      \<and> (\<exists>r. range_search snr_at min_snr_db 1 10000 = Inr r \<and> 1 \<le> r \<and> r \<le> 10000)"
    using it[of snr_at min_snr_db] b[of snr_at min_snr_db] by (intro impI conjI)
  have second: "frequency_khz\<^sup>2 < double_overflow \<longrightarrow>
      range_search_iterations
        (\<lambda>mid. calculate_snr mid source_level_db noise_level_db frequency_khz) min_snr_db 1 10000 = 17
      \<and> (\<exists>r. max_communication_range min_snr_db source_level_db noise_level_db frequency_khz = Inr r
             \<and> 1 \<le> r \<and> r \<le> 10000)"
  proof (intro impI conjI)
    assume f: "frequency_khz\<^sup>2 < double_overflow"
    show "range_search_iterations
        (\<lambda>mid. calculate_snr mid source_level_db noise_level_db frequency_khz) min_snr_db 1 10000 = 17"
      by (rule it[OF ok[OF f]])
    show "\<exists>r. max_communication_range min_snr_db source_level_db noise_level_db frequency_khz = Inr r
             \<and> 1 \<le> r \<and> r \<le> 10000"
      by (rule max_communication_range_returns[OF f])
  qed
  from first second show ?thesis by (rule conjI)
qed

theorem max_communication_range_terminates_in_bounds_witness:
  "(20::real)\<^sup>2 < double_overflow
   \<and> range_search_iterations (\<lambda>mid. calculate_snr mid 170 60 20) 10 1 10000 = 17
   \<and> (\<exists>r. max_communication_range 10 170 60 20 = Inr r \<and> 1 \<le> r \<and> r \<le> 10000)"
proof -
  note f = repo_frequency_in_range
  from max_communication_range_terminates_in_bounds[of "\<lambda>d. Inr 0" 10 20 170 60]
  have "(20::real)\<^sup>2 < double_overflow \<longrightarrow>
      range_search_iterations (\<lambda>mid. calculate_snr mid 170 60 20) 10 1 10000 = 17
      \<and> (\<exists>r. max_communication_range 10 170 60 20 = Inr r \<and> 1 \<le> r \<and> r \<le> 10000)"
    by (rule conjunct2)
  from this[rule_format, OF f]
  have c: "range_search_iterations (\<lambda>mid. calculate_snr mid 170 60 20) 10 1 10000 = 17
      \<and> (\<exists>r. max_communication_range 10 170 60 20 = Inr r \<and> 1 \<le> r \<and> r \<le> 10000)" .
  show ?thesis by (rule conjI[OF f c])
qed

text \<open>
  The condition on the frequency cannot be dropped: at 1e200 kHz the first call of
  \<open>calculate_snr\<close> raises \<open>OverflowError\<close>, and no range is returned.
\<close>

theorem max_communication_range_raises_on_overflow:
  "max_communication_range 10 170 60 (10 ^ 200) = Inl OverflowError"
proof -
  have "\<forall>d. calculate_snr d 170 60 (10 ^ 200) = Inl OverflowError"
    using calculate_snr_overflows[OF huge_frequency_overflows] by blast
  from range_search_raises_at_once(1)[OF this] show ?thesis
    by (simp add: max_communication_range_def tolerance_def)
qed

section \<open>Construction performs no validation\<close>

text \<open>
  C2. Optimizer construction does not validate the population size, the list of points
  of interest, the bathymetric bounds or the maximum node counts: whatever their values,
  also zero, negative, empty or inverted, construction succeeds and stores them as
  given, provided the square of the acoustic frequency does not overflow a double.
\<close>

theorem init_performs_no_validation:
  assumes "(acoustic_frequency_khz cfg)\<^sup>2 < double_overflow"
  shows "\<exists>self. init cfg pois_arg bathymetry_arg center_lat_arg center_lon_arg area_radius_km_arg
                 = Inr self
     \<and> pois self = pois_arg
     \<and> pop_size self = nsga2_population_size cfg
     \<and> max_sns self = nsga2_max_sensor_nodes cfg
     \<and> max_bgs self = nsga2_max_gateway_buoys cfg"
proof -
  from max_communication_range_returns[OF assms]
  obtain r where "max_communication_range (acoustic_min_snr_db cfg) (acoustic_source_level_db cfg)
      (acoustic_noise_level_db cfg) (acoustic_frequency_khz cfg) = Inr r" by blast
  then show ?thesis by (simp add: init_def)
qed

theorem init_performs_no_validation_witness:
  "(acoustic_frequency_khz invalid_config)\<^sup>2 < double_overflow
   \<and> (\<exists>self. init invalid_config [] [] 0 0 1 = Inr self
        \<and> pois self = []
        \<and> pop_size self = nsga2_population_size invalid_config
        \<and> max_sns self = nsga2_max_sensor_nodes invalid_config
        \<and> max_bgs self = nsga2_max_gateway_buoys invalid_config)"
proof -
  have h: "(acoustic_frequency_khz invalid_config)\<^sup>2 < double_overflow"
    using repo_frequency_in_range by (simp add: invalid_config_def)
  show ?thesis by (rule conjI[OF h init_performs_no_validation[OF h]])
qed

text \<open>
  Construction does not fail fast on an invalid configuration: with a population size of
  0, no sensor nodes, a negative number of gateways, inverted depth bounds and no point
  of interest it returns an optimizer that holds these values.
\<close>

theorem init_accepts_invalid_configuration:
  "nsga2_population_size invalid_config \<le> 0
   \<and> nsga2_max_sensor_nodes invalid_config \<le> 0
   \<and> nsga2_max_gateway_buoys invalid_config \<le> 0
   \<and> bathymetry_depth_max invalid_config < bathymetry_depth_min invalid_config
   \<and> \<not> isl (init invalid_config [] [] 0 0 1)
   \<and> pois (projr (init invalid_config [] [] 0 0 1)) = []
   \<and> pop_size (projr (init invalid_config [] [] 0 0 1)) = 0
   \<and> max_sns (projr (init invalid_config [] [] 0 0 1)) = 0
   \<and> max_bgs (projr (init invalid_config [] [] 0 0 1)) = - 1"
proof -
  have a: "acoustic_min_snr_db invalid_config = 10" "acoustic_source_level_db invalid_config = 170"
    "acoustic_noise_level_db invalid_config = 60" "acoustic_frequency_khz invalid_config = 20"
    by (simp_all add: invalid_config_def)
  have n: "nsga2_population_size invalid_config = 0" "nsga2_max_sensor_nodes invalid_config = 0"
    "nsga2_max_gateway_buoys invalid_config = - 1"
    "bathymetry_depth_max invalid_config = 8" "bathymetry_depth_min invalid_config = 25"
    by (simp_all add: invalid_config_def)
  have "(20::real)\<^sup>2 < double_overflow" by (rule repo_frequency_in_range)
  from max_communication_range_returns[OF this, of 10 170 60]
  obtain r where r: "max_communication_range 10 170 60 20 = Inr r" by blast
  have i: "init invalid_config [] [] 0 0 1 =
      Inr \<lparr>pois = [], bathymetry = [], center_lat = 0, center_lon = 0, area_radius_km = 1,
           pop_size = 0, n_gen = nsga2_generations invalid_config,
           mut_rate = nsga2_mutation_rate invalid_config,
           cx_rate = nsga2_crossover_rate invalid_config,
           max_sns = 0, max_bgs = - 1, max_range_m = r\<rparr>"
    by (simp only: init_def a n r sum.case)
  show ?thesis by (simp add: i n)
qed

section \<open>The connectivity checker decides reachability of a gateway\<close>

subsection \<open>Breadth-first search computes the reachable vertices\<close>

definition adjacency :: "graph \<Rightarrow> (nat \<times> nat) set" where
  "adjacency G = {(v, w). (v, w) \<in> set (edges G) \<or> (w, v) \<in> set (edges G)}"

lemma set_neighbors: "set (neighbors G v) = adjacency G `` {v}"
  by (auto simp: neighbors_def adjacency_def)

lemma bfs_reach_eq: "set (bfs_reach G seen) = (adjacency G)\<^sup>* `` set seen"
proof (induction G seen rule: bfs_reach.induct)
  case (1 G seen)
  define frontier where
    "frontier = filter (\<lambda>w. w \<notin> set seen) (remdups (concat (map (neighbors G) seen)))"
  have fr: "set frontier = adjacency G `` set seen - set seen"
    by (auto simp: frontier_def set_neighbors)
  show ?case
  proof (cases "frontier = []")
    case True
    then have closed: "adjacency G `` set seen \<subseteq> set seen" using fr by auto
    have stay: "w \<in> set seen" if "(v, w) \<in> (adjacency G)\<^sup>*" "v \<in> set seen" for v w
      using that by (induction rule: rtrancl_induct) (use closed in auto)
    have "(adjacency G)\<^sup>* `` set seen \<subseteq> set seen"
      using stay by auto
    moreover have "bfs_reach G seen = seen"
      using True by (subst bfs_reach.simps) (simp add: frontier_def)
    ultimately show ?thesis by auto
  next
    case False
    have "bfs_reach G seen = bfs_reach G (seen @ frontier)"
      using False by (subst bfs_reach.simps) (simp add: frontier_def Let_def)
    also have "set \<dots> = (adjacency G)\<^sup>* `` set (seen @ frontier)"
      using "1.IH"[OF frontier_def False] .
    also have "\<dots> = (adjacency G)\<^sup>* `` set seen"
    proof -
      have "set frontier \<subseteq> (adjacency G)\<^sup>* `` set seen" using fr by auto
      then have "(adjacency G)\<^sup>* `` set frontier \<subseteq> (adjacency G)\<^sup>* `` set seen"
        by (auto intro: rtrancl_trans)
      then show ?thesis by auto
    qed
    finally show ?thesis .
  qed
qed

lemma has_path_iff: "has_path G s t \<longleftrightarrow> (s, t) \<in> (adjacency G)\<^sup>*"
  by (simp add: has_path_def bfs_reach_eq)

subsection \<open>The distance is symmetric\<close>

lemma haversine_distance_commute:
  "haversine_distance lat1 lon1 lat2 lon2 = haversine_distance lat2 lon2 lat1 lon1"
proof -
  have s: "(sin (radians (x - y) / 2))\<^sup>2 = (sin (radians (y - x) / 2))\<^sup>2" for x y :: real
  proof -
    have "radians (x - y) / 2 = - (radians (y - x) / 2)" by (simp add: radians_def field_simps)
    then show ?thesis by (simp only: sin_minus power2_minus)
  qed
  show ?thesis
    unfolding haversine_distance_def Let_def
    by (simp only: s[of lat2 lat1] s[of lon2 lon1] mult.commute[of "cos (radians lat1)"])
qed

lemma haversine_distance_same: "haversine_distance la lo la lo = 0"
  by (simp add: haversine_distance_def radians_def arctan2_def)

subsection \<open>The edges that the two loops add\<close>

lemma edges_add_node [simp]: "edges (add_node G v) = edges G"
  by (simp add: add_node_def)

lemma edges_add_edge [simp]: "edges (add_edge G u v) = edges G @ [(u, v)]"
  by (simp add: add_edge_def Let_def)

lemma edges_fold_add_node: "edges (fold (\<lambda>i G. add_node G i) is G) = edges G"
  by (induction "is" arbitrary: G) simp_all

lemma edges_fold_inner:
  "edges (fold (\<lambda>j G. if D j \<le> r then add_edge G i j else G) js G)
   = edges G @ [(i, j). j \<leftarrow> js, D j \<le> r]"
  by (induction js arbitrary: G) simp_all

lemma edges_fold_outer:
  "edges (fold (\<lambda>i G.
       fold (\<lambda>j G. if D i j \<le> r then add_edge G i j else G) (J i) G)
     is G)
   = edges G @ concat (map (\<lambda>i. [(i, j). j \<leftarrow> J i, D i j \<le> r]) is)"
  by (induction "is" arbitrary: G) (simp_all add: edges_fold_inner)

lemma check_connectivity_iff:
  "check_connectivity self active_sns active_bgs \<longleftrightarrow>
     active_bgs \<noteq> [] \<and>
     (\<exists>b < length (active_sns @ active_bgs). node_type ((active_sns @ active_bgs) ! b) = 1) \<and>
     (\<forall>s < length active_sns. \<exists>b < length (active_sns @ active_bgs).
        node_type ((active_sns @ active_bgs) ! b) = 1 \<and>
        (s, b) \<in> (proximity_graph self (active_sns @ active_bgs))\<^sup>*)"
proof -
  define all_nodes where "all_nodes = active_sns @ active_bgs"
  define D where "D = (\<lambda>i j. haversine_distance
      (lat (all_nodes ! i)) (lon (all_nodes ! i)) (lat (all_nodes ! j)) (lon (all_nodes ! j)))"
  define G0 where "G0 = fold (\<lambda>i G. add_node G i) [0..<length all_nodes] empty_graph"
  define G where "G = fold (\<lambda>i G.
      fold (\<lambda>j G. if D i j \<le> max_range_m self then add_edge G i j else G)
        [i + 1..<length all_nodes] G)
      [0..<length all_nodes] G0"
  define bg_indices where
    "bg_indices = [i \<leftarrow> [0..<length all_nodes]. node_type (all_nodes ! i) = 1]"
  have e0: "edges G0 = []"
    by (simp add: G0_def edges_fold_add_node empty_graph_def)
  have eG: "set (edges G) =
      {(i, j). i < j \<and> j < length all_nodes \<and> D i j \<le> max_range_m self}"
    unfolding G_def by (subst edges_fold_outer) (auto simp: e0)
  have Dsym: "D i j = D j i" for i j
    unfolding D_def by (rule haversine_distance_commute)
  have adj: "adjacency G = proximity_graph self all_nodes"
  proof -
    have "(i, j) \<in> adjacency G \<longleftrightarrow> (i, j) \<in> proximity_graph self all_nodes" for i j
    proof -
      have "(i, j) \<in> adjacency G \<longleftrightarrow>
          (i < j \<and> j < length all_nodes \<and> D i j \<le> max_range_m self) \<or>
          (j < i \<and> i < length all_nodes \<and> D j i \<le> max_range_m self)"
        by (simp add: adjacency_def eG)
      also have "\<dots> \<longleftrightarrow> i < length all_nodes \<and> j < length all_nodes \<and> i \<noteq> j
          \<and> D i j \<le> max_range_m self"
        using Dsym[of i j] by (cases i j rule: linorder_cases) auto
      also have "\<dots> \<longleftrightarrow> (i, j) \<in> proximity_graph self all_nodes"
        by (simp add: proximity_graph_def within_range_def D_def)
      finally show ?thesis .
    qed
    then show ?thesis by auto
  qed
  have bg: "set bg_indices = {b. b < length all_nodes \<and> node_type (all_nodes ! b) = 1}"
    by (auto simp: bg_indices_def)
  have unfold: "check_connectivity self active_sns active_bgs =
      (if active_bgs = [] then False
       else if bg_indices = [] then False
       else list_all (\<lambda>sn_idx. list_ex (\<lambda>bg_idx. has_path G sn_idx bg_idx) bg_indices)
              [0..<length active_sns])"
    by (simp only: check_connectivity_def Let_def G_def G0_def bg_indices_def D_def all_nodes_def)
  have ne: "bg_indices = [] \<longleftrightarrow> \<not> (\<exists>b < length all_nodes. node_type (all_nodes ! b) = 1)"
  proof -
    have "bg_indices = [] \<longleftrightarrow> set bg_indices = {}" by simp
    then show ?thesis unfolding bg by auto
  qed
  have loop: "list_all (\<lambda>sn_idx. list_ex (\<lambda>bg_idx. has_path G sn_idx bg_idx) bg_indices)
        [0..<length active_sns] \<longleftrightarrow>
      (\<forall>s < length active_sns. \<exists>b < length all_nodes.
         node_type (all_nodes ! b) = 1 \<and> (s, b) \<in> (proximity_graph self all_nodes)\<^sup>*)"
    by (simp only: list_all_iff list_ex_iff bg has_path_iff adj) auto
  show ?thesis
    unfolding unfold ne loop all_nodes_def by auto
qed


lemma gateway_indices:
  assumes "\<forall>n \<in> set active_sns. node_type n = 0" "\<forall>n \<in> set active_bgs. node_type n = 1"
  shows "b < length (active_sns @ active_bgs) \<and> node_type ((active_sns @ active_bgs) ! b) = 1
         \<longleftrightarrow> (\<exists>g < length active_bgs. b = length active_sns + g)"
proof (cases "b < length active_sns")
  case True
  then have "node_type ((active_sns @ active_bgs) ! b) = 0"
    using assms(1) by (simp add: nth_append)
  then show ?thesis using True by auto
next
  case False
  define g where "g = b - length active_sns"
  have g: "b = length active_sns + g" using False by (simp add: g_def)
  show ?thesis
  proof (cases "g < length active_bgs")
    case True
    then have "node_type ((active_sns @ active_bgs) ! b) = 1"
      using assms(2) g by (simp add: nth_append)
    then show ?thesis using True g by auto
  next
    case False
    then show ?thesis using g by auto
  qed
qed

lemma check_connectivity_feasible:
  assumes "\<forall>n \<in> set active_sns. node_type n = 0" "\<forall>n \<in> set active_bgs. node_type n = 1"
  shows "check_connectivity self active_sns active_bgs \<longleftrightarrow> feasible self active_sns active_bgs"
proof -
  note gi = gateway_indices[OF assms]
  have some: "(\<exists>b < length (active_sns @ active_bgs). node_type ((active_sns @ active_bgs) ! b) = 1)
      \<longleftrightarrow> active_bgs \<noteq> []"
  proof -
    have "(\<exists>b < length (active_sns @ active_bgs). node_type ((active_sns @ active_bgs) ! b) = 1)
      \<longleftrightarrow> (\<exists>b. \<exists>g < length active_bgs. b = length active_sns + g)"
      using gi by blast
    also have "\<dots> \<longleftrightarrow> (\<exists>g. g < length active_bgs)" by blast
    also have "\<dots> \<longleftrightarrow> active_bgs \<noteq> []" by (cases active_bgs) auto
    finally show ?thesis .
  qed
  have each: "(\<exists>b < length (active_sns @ active_bgs).
        node_type ((active_sns @ active_bgs) ! b) = 1 \<and>
        (s, b) \<in> (proximity_graph self (active_sns @ active_bgs))\<^sup>*)
      \<longleftrightarrow> (\<exists>g < length active_bgs.
        (s, length active_sns + g) \<in> (proximity_graph self (active_sns @ active_bgs))\<^sup>*)" for s
  proof -
    have "(\<exists>b < length (active_sns @ active_bgs).
        node_type ((active_sns @ active_bgs) ! b) = 1 \<and>
        (s, b) \<in> (proximity_graph self (active_sns @ active_bgs))\<^sup>*)
      \<longleftrightarrow> (\<exists>b. (\<exists>g < length active_bgs. b = length active_sns + g) \<and>
        (s, b) \<in> (proximity_graph self (active_sns @ active_bgs))\<^sup>*)"
      using gi by blast
    also have "\<dots> \<longleftrightarrow> (\<exists>g < length active_bgs.
        (s, length active_sns + g) \<in> (proximity_graph self (active_sns @ active_bgs))\<^sup>*)"
      by blast
    finally show ?thesis .
  qed
  show ?thesis
    by (simp only: check_connectivity_iff feasible_def some each) blast
qed


lemma star_feasible:
  assumes "\<forall>s \<in> set active_sns. within_range self s g"
  shows "feasible self active_sns [g]"
proof -
  have "(s, length active_sns + 0) \<in> (proximity_graph self (active_sns @ [g]))\<^sup>*"
    if "s < length active_sns" for s
  proof -
    have "within_range self (active_sns ! s) g" using assms that by simp
    then have "(s, length active_sns) \<in> proximity_graph self (active_sns @ [g])"
      using that by (simp add: proximity_graph_def nth_append)
    then show ?thesis by simp
  qed
  then have "\<forall>s < length active_sns. \<exists>k < length [g].
      (s, length active_sns + k) \<in> (proximity_graph self (active_sns @ [g]))\<^sup>*"
    by (intro allI impI exI[of _ 0]) simp
  then show ?thesis by (simp only: feasible_def) simp
qed

lemma haversine_distance_antipode: "haversine_distance 0 0 0 180 = 6371000 * pi"
  by (simp add: haversine_distance_def radians_def arctan2_def)

lemma antipode_out_of_range: "\<not> 6371000 * pi \<le> 100"
  using pi_ge_two by linarith

lemma bfs_reach_single_edge: "bfs_reach (Graph [0, Suc 0] [(0, Suc 0)]) [0] = [0, Suc 0]"
  apply (subst bfs_reach.simps)
  apply (simp add: neighbors_def)
  apply (subst bfs_reach.simps)
  apply (simp add: neighbors_def)
  done

lemma bfs_reach_no_edge: "bfs_reach (Graph [0, Suc 0] []) [0] = [0]"
  by (subst bfs_reach.simps) (simp add: neighbors_def)

lemma example_connected:
  "check_connectivity example_optimizer [example_sensor] [example_gateway]"
  by (simp add: check_connectivity_def example_optimizer_def example_sensor_def
      example_gateway_def haversine_distance_same add_node_def add_edge_def empty_graph_def
      has_path_def bfs_reach_single_edge Let_def)

lemma example_disconnected:
  "\<not> check_connectivity example_optimizer [example_sensor] [far_gateway]"
  by (simp add: check_connectivity_def example_optimizer_def example_sensor_def
      far_gateway_def haversine_distance_antipode antipode_out_of_range add_node_def
      add_edge_def empty_graph_def has_path_def bfs_reach_no_edge Let_def)

lemma example_covered:
  "covered_ids example_optimizer [example_sensor] = {1}"
  by (auto simp: covered_ids_def covers_def example_optimizer_def example_poi_def
      example_sensor_def haversine_distance_same)

text \<open>
  C5. For all lists of active sensors (type tag 0) and active gateways (type tag 1), the
  connectivity checker answers True if and only if at least one gateway is active and
  every active sensor has a path to some active gateway in the undirected graph whose
  edges join the pairs of active nodes within the maximum range of each other. In
  particular a star of one active gateway and any number of active sensors, all within
  range of the gateway, is feasible.
\<close>

theorem check_connectivity_is_gateway_reachability:
  assumes "\<forall>n \<in> set active_sns. node_type n = 0" "\<forall>n \<in> set active_bgs. node_type n = 1"
  shows "(check_connectivity self active_sns active_bgs \<longleftrightarrow> feasible self active_sns active_bgs)
       \<and> ((\<exists>g. active_bgs = [g] \<and> (\<forall>s \<in> set active_sns. within_range self s g))
            \<longrightarrow> check_connectivity self active_sns active_bgs)"
proof -
  note eq = check_connectivity_feasible[OF assms, of self]
  have "feasible self active_sns active_bgs"
    if "\<exists>g. active_bgs = [g] \<and> (\<forall>s \<in> set active_sns. within_range self s g)"
  proof -
    from that obtain g where g: "active_bgs = [g]" "\<forall>s \<in> set active_sns. within_range self s g"
      by blast
    show ?thesis unfolding g(1) by (rule star_feasible[OF g(2)])
  qed
  then show ?thesis using eq by blast
qed

theorem check_connectivity_is_gateway_reachability_witness:
  "node_type example_sensor = 0 \<and> node_type example_gateway = 1
   \<and> within_range example_optimizer example_sensor example_gateway
   \<and> check_connectivity example_optimizer [example_sensor] [example_gateway]
   \<and> feasible example_optimizer [example_sensor] [example_gateway]"
proof -
  have t: "node_type example_sensor = 0" "node_type example_gateway = 1"
    by (simp_all add: example_sensor_def example_gateway_def)
  have w: "within_range example_optimizer example_sensor example_gateway"
    by (simp add: within_range_def example_sensor_def example_gateway_def
        example_optimizer_def haversine_distance_same)
  have h1: "\<forall>n \<in> set [example_sensor]. node_type n = 0" using t by simp
  have h2: "\<forall>n \<in> set [example_gateway]. node_type n = 1" using t by simp
  have star: "\<exists>g. [example_gateway] = [g]
      \<and> (\<forall>s \<in> set [example_sensor]. within_range example_optimizer s g)"
    using w by simp
  from check_connectivity_is_gateway_reachability[OF h1 h2, of example_optimizer] star
  have "check_connectivity example_optimizer [example_sensor] [example_gateway]"
    and "feasible example_optimizer [example_sensor] [example_gateway]"
    by blast+
  then show ?thesis using t w by blast
qed

section \<open>The fitness evaluator\<close>

lemma fold_covered:
  "fold (\<lambda>poi covered. if P poi then insert (poi_id poi) covered else covered) ps acc
   = acc \<union> poi_id ` {p \<in> set ps. P p}"
  by (induction ps arbitrary: acc) auto

lemma coverage_pct_value:
  "pois self \<noteq> [] \<Longrightarrow>
   coverage_pct self sensors
   = Inr (real (card (covered_ids self sensors)) / real (length (pois self)) * 100)"
  by (simp add: coverage_pct_def fold_covered list_ex_iff covered_ids_def covers_def)

text \<open>
  C4. For every individual with no active sensor or no active gateway, the evaluator
  returns exactly the penalty pair (1e6, 0.0).
\<close>

theorem evaluate_degenerate_penalty:
  assumes "length (active_sensors individual) = 0 \<or> length (active_gateways individual) = 0"
  shows "evaluate cfg self individual = Inr (1000000, 0)"
  using assms by (auto simp: evaluate_def active_sensors_def active_gateways_def Let_def)

theorem evaluate_degenerate_penalty_witness:
  "length (active_sensors [example_gateway]) = 0
   \<and> evaluate repo_config example_optimizer [example_gateway] = Inr (1000000, 0)"
proof -
  have h: "length (active_sensors [example_gateway]) = 0"
    by (simp add: active_sensors_def example_gateway_def)
  then have "length (active_sensors [example_gateway]) = 0
      \<or> length (active_gateways [example_gateway]) = 0" by simp
  from evaluate_degenerate_penalty[OF this] h show ?thesis by blast
qed

text \<open>
  C3. For every individual, when the optimizer's list of points of interest is not
  empty, the evaluation raises no exception and returns a (cost, coverage) pair.
\<close>

theorem evaluate_returns_fitness_pair:
  assumes "pois self \<noteq> []"
  shows "\<exists>cost pct. evaluate cfg self individual = Inr (cost, pct)"
  using coverage_pct_value[OF assms]
  by (simp add: evaluate_def Let_def)

theorem evaluate_returns_fitness_pair_witness:
  "pois example_optimizer \<noteq> []
   \<and> (\<exists>cost pct. evaluate repo_config example_optimizer [example_sensor, example_gateway]
         = Inr (cost, pct))"
proof -
  have h: "pois example_optimizer \<noteq> []" by (simp add: example_optimizer_def)
  from evaluate_returns_fitness_pair[OF h] h show ?thesis by blast
qed

text \<open>
  The condition cannot be dropped: with no point of interest, an individual with one
  active sensor and one active gateway makes the evaluator divide by zero.
\<close>

theorem evaluate_raises_on_empty_pois:
  "evaluate repo_config (example_optimizer\<lparr>pois := []\<rparr>) [example_sensor, example_gateway]
   = Inl ZeroDivisionError"
  by (simp add: evaluate_def coverage_pct_def example_sensor_def example_gateway_def
      example_optimizer_def Let_def)

text \<open>
  C6. For every individual with at least one active sensor and at least one active
  gateway, when the list of points of interest is not empty, the cost is the
  number of active sensors times the relative sensor cost plus the number of active
  gateways times the relative gateway cost, the coverage is 100 times the number of
  covered points of interest over their total, and the evaluator returns
  (cost, coverage) when the connectivity checker answers True and
  (cost * 10, coverage * 0.1) when it answers False.
\<close>

theorem evaluate_cost_and_penalty:
  assumes "pois self \<noteq> []" "active_sensors individual \<noteq> []" "active_gateways individual \<noteq> []"
  shows "evaluate cfg self individual =
     (let cost = real (length (active_sensors individual)) * relative_cost_sensor_node cfg
                 + real (length (active_gateways individual)) * relative_cost_gateway_buoy cfg;
          pct = real (card (covered_ids self (active_sensors individual)))
                / real (length (pois self)) * 100
      in if check_connectivity self (active_sensors individual) (active_gateways individual)
         then Inr (cost, pct)
         else Inr (cost * 10, pct * 0.1))"
  using assms(2,3) coverage_pct_value[OF assms(1), of "active_sensors individual"]
  by (simp add: evaluate_def Let_def active_sensors_def active_gateways_def)

theorem evaluate_cost_and_penalty_witness:
  "pois example_optimizer \<noteq> []
   \<and> active_sensors [example_sensor, far_gateway] \<noteq> []
   \<and> active_gateways [example_sensor, far_gateway] \<noteq> []
   \<and> evaluate repo_config example_optimizer [example_sensor, far_gateway] = Inr (60, 10)
   \<and> evaluate repo_config example_optimizer [example_sensor, example_gateway] = Inr (6, 100)"
proof -
  have p: "pois example_optimizer \<noteq> []" by (simp add: example_optimizer_def)
  have s1: "active_sensors [example_sensor, far_gateway] = [example_sensor]"
    and g1: "active_gateways [example_sensor, far_gateway] = [far_gateway]"
    and s2: "active_sensors [example_sensor, example_gateway] = [example_sensor]"
    and g2: "active_gateways [example_sensor, example_gateway] = [example_gateway]"
    by (simp_all add: active_sensors_def active_gateways_def example_sensor_def
        far_gateway_def example_gateway_def)
  have n: "length (pois example_optimizer) = 1" by (simp add: example_optimizer_def)
  have c: "relative_cost_sensor_node repo_config = 1" "relative_cost_gateway_buoy repo_config = 5"
    by (simp_all add: repo_config_def)
  have a: "evaluate repo_config example_optimizer [example_sensor, far_gateway] = Inr (60, 10)"
    using evaluate_cost_and_penalty[of example_optimizer "[example_sensor, far_gateway]" repo_config]
    by (simp add: p s1 g1 n c example_covered example_disconnected)
  have b: "evaluate repo_config example_optimizer [example_sensor, example_gateway] = Inr (6, 100)"
    using evaluate_cost_and_penalty[of example_optimizer "[example_sensor, example_gateway]" repo_config]
    by (simp add: p s2 g2 n c example_covered example_connected)
  show ?thesis using p a b by (simp add: s1 g1)
qed

text \<open>
  Here too the condition cannot be dropped: with no point of interest, an individual with
  one active sensor and one active gateway out of range of it gets no penalised pair,
  because the evaluator divides by zero before it reaches the connectivity check.
\<close>

theorem evaluate_penalty_lost_on_empty_pois:
  "active_sensors [example_sensor, far_gateway] \<noteq> []
   \<and> active_gateways [example_sensor, far_gateway] \<noteq> []
   \<and> \<not> check_connectivity (example_optimizer\<lparr>pois := []\<rparr>)
          (active_sensors [example_sensor, far_gateway])
          (active_gateways [example_sensor, far_gateway])
   \<and> evaluate repo_config (example_optimizer\<lparr>pois := []\<rparr>) [example_sensor, far_gateway]
       = Inl ZeroDivisionError"
proof -
  have s1: "active_sensors [example_sensor, far_gateway] = [example_sensor]"
    and g1: "active_gateways [example_sensor, far_gateway] = [far_gateway]"
    by (simp_all add: active_sensors_def active_gateways_def example_sensor_def far_gateway_def)
  have d: "\<not> check_connectivity (example_optimizer\<lparr>pois := []\<rparr>) [example_sensor] [far_gateway]"
    by (simp add: check_connectivity_def example_optimizer_def example_sensor_def
        far_gateway_def haversine_distance_antipode antipode_out_of_range add_node_def
        add_edge_def empty_graph_def has_path_def bfs_reach_no_edge Let_def)
  have e: "evaluate repo_config (example_optimizer\<lparr>pois := []\<rparr>) [example_sensor, far_gateway]
       = Inl ZeroDivisionError"
    by (simp add: evaluate_def coverage_pct_def example_sensor_def far_gateway_def
        example_optimizer_def Let_def)
  show ?thesis using d e by (simp add: s1 g1)
qed

section \<open>Crossover\<close>

lemma segments:
  assumes "a \<le> b" "b \<le> length xs"
  shows "take a xs @ take (b - a) (drop a xs) @ drop b xs = xs"
proof -
  have "take (b - a) (drop a xs) @ drop b xs = drop a xs"
    using assms by (metis append_take_drop_id drop_drop le_add_diff_inverse2)
  then show ?thesis by simp
qed

lemma swap_slices:
  assumes "0 \<le> p1" "p1 \<le> p2" "p2 \<le> int (length xs)" "length ys = length xs"
  shows "length (set_slice xs p1 p2 (get_slice ys p1 p2)) = length xs"
    and "mset (set_slice xs p1 p2 (get_slice ys p1 p2))
         + mset (set_slice ys p1 p2 (get_slice xs p1 p2)) = mset xs + mset ys"
proof -
  define a where "a = nat p1"
  define b where "b = nat p2"
  have ab: "a \<le> b" "b \<le> length xs" "b \<le> length ys"
    using assms by (simp_all add: a_def b_def nat_le_iff)
  have ia: "slice_index (length xs) p1 = a" "slice_index (length ys) p1 = a"
    using assms ab by (simp_all add: slice_index_def a_def b_def)
  have ib: "slice_index (length xs) p2 = b" "slice_index (length ys) p2 = b"
    using assms ab by (simp_all add: slice_index_def a_def b_def)
  have gx: "get_slice xs p1 p2 = take (b - a) (drop a xs)"
    and gy: "get_slice ys p1 p2 = take (b - a) (drop a ys)"
    by (simp_all add: get_slice_def ia ib)
  have sx: "set_slice xs p1 p2 zs = take a xs @ zs @ drop b xs"
    and sy: "set_slice ys p1 p2 zs = take a ys @ zs @ drop b ys" for zs
    using ab by (simp_all add: set_slice_def ia ib max_def)
  show "length (set_slice xs p1 p2 (get_slice ys p1 p2)) = length xs"
    using ab by (simp add: sx gy)
  have "mset xs = mset (take a xs) + mset (take (b - a) (drop a xs)) + mset (drop b xs)"
    using segments[OF ab(1,2)] by (metis mset_append add.assoc)
  moreover
  have "mset ys = mset (take a ys) + mset (take (b - a) (drop a ys)) + mset (drop b ys)"
    using segments[OF ab(1,3)] by (metis mset_append add.assoc)
  ultimately
  show "mset (set_slice xs p1 p2 (get_slice ys p1 p2))
         + mset (set_slice ys p1 p2 (get_slice xs p1 p2)) = mset xs + mset ys"
    by (simp add: sx sy gx gy)
qed

text \<open>
  C7. For every pair of individuals of the same length \<open>n \<ge> 2\<close> and every pair of cut
  points drawn in \<open>[1, n - 1]\<close>, crossover returns two offspring of length \<open>n\<close> each, and
  the nodes of the two offspring together are, as a multiset, the nodes of the two
  parents together.
\<close>

theorem crossover_keeps_length_and_nodes:
  assumes "length ind1 = n" "length ind2 = n" "2 \<le> n"
    and "1 \<le> outcome1" "outcome1 \<le> int n - 1" "1 \<le> outcome2" "outcome2 \<le> int n - 1"
  shows "\<exists>child1 child2.
           crossover ind1 ind2 outcome1 outcome2 = Inr (child1, child2)
           \<and> length child1 = n \<and> length child2 = n
           \<and> mset child1 + mset child2 = mset ind1 + mset ind2"
proof -
  define p1 where "p1 = min outcome1 outcome2"
  define p2 where "p2 = max outcome1 outcome2"
  have range: "0 \<le> p1" "p1 \<le> p2" "p2 \<le> int (length ind1)"
    using assms by (simp_all add: p1_def p2_def)
  have len: "length ind2 = length ind1" using assms by simp
  have draw: "randint 1 (int (length ind1) - 1) outcome1 = Inr outcome1"
    "randint 1 (int (length ind1) - 1) outcome2 = Inr outcome2"
    using assms by (simp_all add: randint_def)
  have cx: "crossover ind1 ind2 outcome1 outcome2
      = Inr (set_slice ind1 p1 p2 (get_slice ind2 p1 p2),
             set_slice ind2 p1 p2 (get_slice ind1 p1 p2))"
  proof (cases "outcome2 < outcome1")
    case True
    then have "p1 = outcome2" "p2 = outcome1" by (simp_all add: p1_def p2_def)
    then show ?thesis using True
      unfolding crossover_def Let_def draw by simp
  next
    case False
    then have "p1 = outcome1" "p2 = outcome2" by (simp_all add: p1_def p2_def)
    then show ?thesis using False
      unfolding crossover_def Let_def draw by simp
  qed
  have range': "p2 \<le> int (length ind2)" by (simp only: len range(3))
  have l1: "length (set_slice ind1 p1 p2 (get_slice ind2 p1 p2)) = n"
    by (simp only: swap_slices(1)[OF range len] assms(1))
  have l2: "length (set_slice ind2 p1 p2 (get_slice ind1 p1 p2)) = n"
    by (simp only: swap_slices(1)[OF range(1,2) range' len[symmetric]] assms(2))
  have m: "mset (set_slice ind1 p1 p2 (get_slice ind2 p1 p2))
         + mset (set_slice ind2 p1 p2 (get_slice ind1 p1 p2)) = mset ind1 + mset ind2"
    by (rule swap_slices(2)[OF range len])
  show ?thesis using cx l1 l2 m by blast
qed

theorem crossover_keeps_length_and_nodes_witness:
  "length [example_sensor, example_gateway, far_gateway] = 3
   \<and> length [far_gateway, example_sensor, example_gateway] = 3
   \<and> crossover [example_sensor, example_gateway, far_gateway]
               [far_gateway, example_sensor, example_gateway] 2 1
       = Inr ([example_sensor, example_sensor, far_gateway],
              [far_gateway, example_gateway, example_gateway])
   \<and> (\<exists>child1 child2.
         crossover [example_sensor, example_gateway, far_gateway]
                   [far_gateway, example_sensor, example_gateway] 2 1 = Inr (child1, child2)
         \<and> length child1 = 3 \<and> length child2 = 3
         \<and> mset child1 + mset child2
             = mset [example_sensor, example_gateway, far_gateway]
               + mset [far_gateway, example_sensor, example_gateway])"
proof -
  have l: "length [example_sensor, example_gateway, far_gateway] = 3"
    "length [far_gateway, example_sensor, example_gateway] = 3" by simp_all
  have v: "crossover [example_sensor, example_gateway, far_gateway]
               [far_gateway, example_sensor, example_gateway] 2 1
       = Inr ([example_sensor, example_sensor, far_gateway],
              [far_gateway, example_gateway, example_gateway])"
    by (simp add: crossover_def randint_def get_slice_def set_slice_def slice_index_def Let_def)
  have "\<exists>child1 child2.
         crossover [example_sensor, example_gateway, far_gateway]
                   [far_gateway, example_sensor, example_gateway] 2 1 = Inr (child1, child2)
         \<and> length child1 = 3 \<and> length child2 = 3
         \<and> mset child1 + mset child2
             = mset [example_sensor, example_gateway, far_gateway]
               + mset [far_gateway, example_sensor, example_gateway]"
    by (rule crossover_keeps_length_and_nodes[OF l]) simp_all
  then show ?thesis using l v by blast
qed

section \<open>Mutation\<close>

lemma mutate_node_frame:
  "depth (mutate_node cfg self d node) = depth node
   \<and> node_type (mutate_node cfg self d node) = node_type node"
proof (cases "choice d")
  case Position
  then show ?thesis by (simp add: mutate_node_def Let_def)
next
  case Activation
  then show ?thesis by (simp add: mutate_node_def)
qed

text \<open>
  C10. For every individual and every outcome of the random draws, mutation keeps the
  length of the individual and the depth and the type tag of every node: only the
  latitude, the longitude and the activation bit can change.
\<close>

theorem mutate_keeps_length_depth_role:
  "length (mutate cfg self draws individual) = length individual
   \<and> map depth (mutate cfg self draws individual) = map depth individual
   \<and> map node_type (mutate cfg self draws individual) = map node_type individual"
proof -
  have nth: "map (\<lambda>i. f (individual ! i)) [0..<length individual] = map f individual"
    for f :: "node \<Rightarrow> 'b"
  proof -
    have "map f (map ((!) individual) [0..<length individual]) = map f individual"
      by (simp only: map_nth)
    then show ?thesis by (simp add: comp_def)
  qed
  have "map depth (mutate cfg self draws individual) = map depth individual"
    using nth[of depth] by (simp add: mutate_def comp_def mutate_node_frame)
  moreover have "map node_type (mutate cfg self draws individual) = map node_type individual"
    using nth[of node_type] by (simp add: mutate_def comp_def mutate_node_frame)
  moreover have "length (mutate cfg self draws individual) = length individual"
    by (simp add: mutate_def)
  ultimately show ?thesis by simp
qed

end
